theory Spec2Isabelle
  imports Complex_Main "HOL-Library.Multiset"
begin

section \<open>The segmented downloader of package \<open>downloader\<close>\<close>

text \<open>
  The development follows \<open>src/unnamed/part_000\<close>: the \<open>Segment\<close> type and its
  \<open>Remaining\<close> method, the seeding loop, the body-streaming loop and the split of the
  largest segment inside \<open>concurrentDownload\<close>, \<open>newWorker\<close>, and \<open>printProgress\<close>.

  Conventions.
  \<^item> Go's \<open>int64\<close> and \<open>int\<close> values are integers of type \<open>int\<close>. The offsets and byte
    counts of a segment lie between \<open>-1\<close> and a little above the length of the file,
    which was parsed as an \<open>int64\<close>, so the arithmetic on them does not wrap around
    and wrap-around is not modelled; the quotient of Go's \<open>/\<close>, which truncates
    towards zero, is \<open>go_div\<close>.
  \<^item> A \<open>*Segment\<close> is an address: an index into the list \<open>heap\<close> of all segments
    allocated so far. The slice \<open>segments\<close> and the channel \<open>segmentChan\<close> hold addresses.
  \<^item> The file handle \<open>File\<close> of a segment, the HTTP client and the formatting of
    messages are left out; an I/O call that can fail is an input that says whether it did.
  \<^item> \<open>float64\<close> values of \<open>printProgress\<close> are the real numbers they stand for.
  \<^item> A \<open>sync.Mutex\<close> is not reentrant: \<open>Lock\<close> on a mutex that is held waits until
    it is released, also when the caller itself holds it. Where the code locks a
    mutex that the same goroutine holds and that no other goroutine unlocks, the call
    never returns, and the model says so (\<open>Blocked\<close>, \<open>Stuck\<close>, \<open>Hung\<close>).
\<close>

subsection \<open>Constants\<close>

definition InitialSegments :: int where
  "InitialSegments = 8"

definition MinSegmentSize :: int where
  "MinSegmentSize = 2 * 1024 * 1024"

definition go_div :: "int \<Rightarrow> int \<Rightarrow> int" where
  "go_div a b = sgn a * sgn b * (\<bar>a\<bar> div \<bar>b\<bar>)"

subsection \<open>Segments\<close>

record segment =
  ID :: int
  Start :: int
  End :: int
  Downloaded :: int

text \<open>\<open>func (s *Segment) Remaining() int64\<close>, the value it returns.\<close>

definition Remaining :: "segment \<Rightarrow> int" where
  "Remaining s = End s - Start s + 1 - Downloaded s"

subsection \<open>Seeding (\<open>concurrentDownload\<close>, the loop over \<open>i < InitialSegments\<close>)\<close>

datatype error = CreateFailed | IndexOutOfRange

text \<open>The segment built by iteration \<open>i\<close> of the loop.\<close>

definition seed_segment :: "int \<Rightarrow> int \<Rightarrow> segment" where
  "seed_segment totalSize i =
     (let segmentSize = go_div totalSize InitialSegments;
          start = i * segmentSize;
          end0 = start + segmentSize - 1;
          end1 = (if i = InitialSegments - 1 then totalSize else end0)
      in \<lparr>ID = i, Start = start, End = end1, Downloaded = 0\<rparr>)"

text \<open>
  The loop itself; \<open>create i\<close> says whether \<open>os.Create\<close> of part file \<open>i\<close> succeeds.
  The first failure returns the error.
\<close>

fun seed_loop :: "(int \<Rightarrow> bool) \<Rightarrow> int \<Rightarrow> nat list \<Rightarrow> error + segment list" where
  "seed_loop create totalSize [] = Inr []"
| "seed_loop create totalSize (i # rest) =
     (if \<not> create (int i) then Inl CreateFailed
      else (case seed_loop create totalSize rest of
              Inl e \<Rightarrow> Inl e
            | Inr segs \<Rightarrow> Inr (seed_segment totalSize (int i) # segs)))"

definition seed :: "(int \<Rightarrow> bool) \<Rightarrow> int \<Rightarrow> error + segment list" where
  "seed create totalSize = seed_loop create totalSize [0..<nat InitialSegments]"

subsection \<open>The merge order and the ranges it concatenates\<close>

text \<open>
  The merge sorts the segments by \<open>ID\<close> and appends the part files in that order
  (the \<open>ID\<close>s differ, so the order does not depend on the sorting algorithm).
  \<open>merge_ranges\<close> lists the byte ranges in that order; \<open>tiles pos rs stop\<close> says that the
  ranges, one after the other, start at \<open>pos\<close>, leave no gap, do not overlap, and end
  just before \<open>stop\<close>.
\<close>

definition merge_ranges :: "segment list \<Rightarrow> (int \<times> int) list" where
  "merge_ranges segs = map (\<lambda>s. (Start s, End s)) (sort_key ID segs)"

fun tiles :: "int \<Rightarrow> (int \<times> int) list \<Rightarrow> int \<Rightarrow> bool" where
  "tiles pos [] stop = (pos = stop)"
| "tiles pos ((s, e) # rs) stop = (s = pos \<and> s \<le> e + 1 \<and> tiles (e + 1) rs stop)"

subsection \<open>The shared state: segments, the slice and the job queue\<close>

text \<open>
  \<open>heap\<close> holds every \<open>Segment\<close> allocated so far, \<open>segments\<close> is the slice of
  pointers of \<open>concurrentDownload\<close>, and \<open>segmentChan\<close> the pointers waiting in the
  channel. After seeding, the slice and the channel hold the eight seeded segments in
  order.
\<close>

record download =
  heap :: "segment list"
  segments :: "nat list"
  segmentChan :: "nat list"

definition init_state :: "segment list \<Rightarrow> download" where
  "init_state segs =
     \<lparr>heap = segs, segments = [0..<length segs], segmentChan = [0..<length segs]\<rparr>"

subsection \<open>A worker streams a body (\<open>downloadSegment\<close>)\<close>

text \<open>
  One round of the read loop that read \<open>n > 0\<close> bytes and wrote them: under the
  segment's lock, \<open>segment.Downloaded += int64(n)\<close>. The buffer has \<open>32 * 1024\<close> bytes,
  so \<open>n\<close> is at most that; nothing else bounds it.
\<close>

definition add_downloaded :: "int \<Rightarrow> segment \<Rightarrow> segment" where
  "add_downloaded n s = s\<lparr>Downloaded := Downloaded s + n\<rparr>"

text \<open>
  The loop over \<open>resp.Body.Read\<close>. Each element of \<open>reads\<close> is one round: the number of
  bytes read, whether \<open>segment.File.Write\<close> succeeded, and the error of the read
  (\<open>nil\<close>, \<open>io.EOF\<close> or another). The loop ends when the file was closed after
  \<open>io.EOF\<close>, or with the error of a write or of a read; \<open>None\<close> says that the rounds given
  did not end it.
\<close>

datatype read_err = NoError | EOF | ReadError

datatype stream_end = Closed | WriteFailed | ReadFailed

fun read_loop :: "(int \<times> bool \<times> read_err) list \<Rightarrow> segment \<Rightarrow> stream_end option \<times> segment" where
  "read_loop [] seg = (None, seg)"
| "read_loop ((n, write_ok, err) # reads) seg =
     (if n > 0 \<and> \<not> write_ok then (Some WriteFailed, seg)
      else
        (let seg' = (if n > 0 then add_downloaded n seg else seg)
         in case err of
              NoError \<Rightarrow> read_loop reads seg'
            | EOF \<Rightarrow> (Some Closed, seg')
            | ReadError \<Rightarrow> (Some ReadFailed, seg')))"

subsection \<open>The splitter, once a worker was admitted\<close>

text \<open>
  \<open>sort.Slice(segments, less)\<close> with \<open>less i j = segments[i].Remaining() >
  segments[j].Remaining()\<close> permutes the slice so that no element is \<open>less\<close> than an
  earlier one. It is not a stable sort, so the order of ties is not determined:
  \<open>sort_Slice_result h before after\<close> says that \<open>after\<close> is one of the orders it can
  leave.
\<close>

definition sort_Slice_result :: "segment list \<Rightarrow> nat list \<Rightarrow> nat list \<Rightarrow> bool" where
  "sort_Slice_result h before after \<longleftrightarrow>
     mset after = mset before \<and>
     sorted_wrt (\<lambda>a b. \<not> Remaining (h ! b) > Remaining (h ! a)) after"

text \<open>
  The code after the comment \<open>Worker has been created, find largest segment to split\<close>.
  \<open>sl\<close> is the slice as \<open>sort.Slice\<close> left it; \<open>largestSegment := segments[0]\<close> panics
  on an empty slice. When the remaining of the largest segment is below
  \<open>MinSegmentSize\<close> the tick is skipped. Otherwise the code locks \<open>largestSegment.mu\<close> and,
  in the very next statement, calls \<open>largestSegment.Remaining()\<close>, which locks the same
  mutex: the call never returns. The assignment of the midpoint to \<open>End\<close>, the
  creation of the part file and of the new segment, and the send on \<open>segmentChan\<close> all
  come after that call, so they are not executed, and \<open>created\<close>, which says whether
  \<open>os.Create\<close> would succeed, is never consulted. In both cases the slice is left in
  the sorted order. The calls of \<open>Remaining\<close> made by the sort and by the test read the
  same state: a write of a worker between them is not modelled.
\<close>

datatype split_result = Panicked error | Skipped download | Hung download

definition split_largest :: "nat list \<Rightarrow> bool \<Rightarrow> download \<Rightarrow> split_result" where
  "split_largest sl created s =
     (case sl of
        [] \<Rightarrow> Panicked IndexOutOfRange
      | largestSegment # rest \<Rightarrow>
          (let seg = heap s ! largestSegment in
           if Remaining seg < MinSegmentSize then Skipped (s\<lparr>segments := sl\<rparr>)
           else Hung (s\<lparr>segments := sl\<rparr>)))"

subsection \<open>Steps of a download\<close>

text \<open>
  What changes the shared state between seeding and the merge: a worker receives the
  next pointer from the channel; a worker adds the \<open>n\<close> bytes of one read to the segment
  at address \<open>p\<close> (any allocated segment may be the one being streamed); the splitter
  sorts the slice and skips the tick or hangs in it. A step that cannot happen (nothing
  to receive, a read of no byte or of more than the buffer, an order \<open>sort.Slice\<close>
  cannot leave, a panic) is \<open>None\<close>. After a tick in which the splitter hangs, the runs
  go on with the steps of the workers. In the program the splitter hangs earlier, in
  the admission of the worker, and no tick gets to the sort; the runs include such
  ticks all the same, so they are at least the runs of the program.
\<close>

datatype event = Receive | BodyRead nat int | SplitTick "nat list" bool

fun step :: "event \<Rightarrow> download \<Rightarrow> download option" where
  "step Receive s =
     (case segmentChan s of [] \<Rightarrow> None | p # q \<Rightarrow> Some (s\<lparr>segmentChan := q\<rparr>))"
| "step (BodyRead p n) s =
     (if p < length (heap s) \<and> 0 < n \<and> n \<le> 32 * 1024
      then Some (s\<lparr>heap := (heap s)[p := add_downloaded n (heap s ! p)]\<rparr>)
      else None)"
| "step (SplitTick sl created) s =
     (if sort_Slice_result (heap s) (segments s) sl
      then (case split_largest sl created s of
              Panicked e \<Rightarrow> None
            | Skipped s' \<Rightarrow> Some s'
            | Hung s' \<Rightarrow> Some s')
      else None)"

fun run :: "event list \<Rightarrow> download \<Rightarrow> download option" where
  "run [] s = Some s"
| "run (e # es) s = (case step e s of None \<Rightarrow> None | Some s' \<Rightarrow> run es s')"

text \<open>
  \<open>reads_within es s\<close>: along the run, every read adds no more bytes than the segment
  has remaining at that moment.
\<close>

fun reads_within :: "event list \<Rightarrow> download \<Rightarrow> bool" where
  "reads_within [] s = True"
| "reads_within (e # es) s =
     ((case e of BodyRead p n \<Rightarrow> n \<le> Remaining (heap s ! p) | _ \<Rightarrow> True) \<and>
      (case step e s of None \<Rightarrow> True | Some s' \<Rightarrow> reads_within es s'))"

definition segment_inv :: "segment \<Rightarrow> bool" where
  "segment_inv s \<longleftrightarrow> 0 \<le> Downloaded s \<and> Downloaded s \<le> End s - Start s + 1"

subsection \<open>The worker pool and its mutex (\<open>newWorker\<close>)\<close>

text \<open>
  \<open>workersMu\<close> is a \<open>sync.Mutex\<close>: \<open>Lock\<close> on a mutex that is held waits until it is
  released, also when the caller itself holds it. No goroutine other than the one that
  locked \<open>workersMu\<close> ever unlocks it, so a \<open>Lock\<close> on the held mutex never returns:
  the call is \<open>Blocked\<close>.

  \<open>probe\<close> is what the request of \<open>newWorker\<close> came to: building it failed, sending it
  failed, or a response with a status code arrived. \<open>Worker_ID\<close> is the field \<open>ID\<close> of
  a \<open>Worker\<close>, and \<open>wg\<close> the counter of the \<open>sync.WaitGroup\<close>.
\<close>

record worker =
  Worker_ID :: int

record pool =
  workers :: "worker list"
  workersMu :: bool
  wg :: int

datatype probe = NewRequestError | DoError | Response int

datatype probe_error = ErrNewRequest | ErrDo

datatype call = Returned bool "probe_error option" pool | Blocked pool

definition newWorker :: "probe \<Rightarrow> pool \<Rightarrow> call" where
  "newWorker resp p =
     (case resp of
        NewRequestError \<Rightarrow> Returned False (Some ErrNewRequest) p
      | DoError \<Rightarrow> Returned False (Some ErrDo) p
      | Response StatusCode \<Rightarrow>
          if StatusCode \<noteq> 206 \<and> StatusCode \<noteq> 200 then Returned False None p
          else if workersMu p then Blocked p
          else
            (let newWorkerID = int (length (workers p))
             in Returned True None
                  (p\<lparr>workers := workers p @ [\<lparr>Worker_ID = newWorkerID\<rparr>],
                     wg := wg p + 1\<rparr>)))"

text \<open>
  The head of one tick of the splitter goroutine: the test of \<open>totalDownloaded\<close>,
  \<open>workersMu.Lock()\<close>, the call of \<open>newWorker\<close> and the \<open>continue\<close>. The tick ends the
  goroutine (\<open>Exit\<close>), is skipped (\<open>Skip\<close>), goes on to the split (\<open>Admitted\<close>), or
  never gets further (\<open>Stuck\<close>). The goroutine does not unlock \<open>workersMu\<close>.
\<close>

datatype admission = Exit | Skip pool | Admitted pool | Stuck pool

definition splitter_admit :: "int \<Rightarrow> int \<Rightarrow> probe \<Rightarrow> pool \<Rightarrow> admission" where
  "splitter_admit totalDownloaded totalSize resp p =
     (if totalDownloaded \<ge> totalSize then Exit
      else if workersMu p then Stuck p
      else (case newWorker resp (p\<lparr>workersMu := True\<rparr>) of
              Blocked p' \<Rightarrow> Stuck p'
            | Returned newWorkerCreated err p' \<Rightarrow>
                (case err of
                   Some e \<Rightarrow> Skip p'
                 | None \<Rightarrow> if \<not> newWorkerCreated then Skip p' else Admitted p')))"

subsection \<open>Progress (\<open>printProgress\<close>)\<close>

text \<open>
  \<open>elapsed\<close> is \<open>time.Since(start).Seconds()\<close> and \<open>window\<close> the slice
  \<open>d.bytesDownloadedPerSecond\<close> before the call. The result is the slice after the call
  and the line written to the terminal, if one is: its percentage (when the parameter
  \<open>total\<close>, here \<open>total'\<close>, is greater than 0), the average speed, and the remaining bytes and seconds behind the ETA (when there is
  one; otherwise the line says \<open>N/A\<close>). \<open>int64(speed)\<close> drops the fraction. The
  quotients are the exact ones: where \<open>float64\<close> rounds, the sample appended to the
  window and the average can differ from the code's in the last place. The length of
  the window, the two clamps and the choice of the branches do not depend on that.
\<close>

definition float_to_int64 :: "real \<Rightarrow> int" where
  "float_to_int64 x = (if 0 \<le> x then \<lfloor>x\<rfloor> else \<lceil>x\<rceil>)"

record progress_line =
  line_pct :: "real option"
  line_written :: int
  line_total :: int
  line_avgSpeed :: real
  line_remainingBytes :: "int option"
  line_remainingSeconds :: "real option"

definition printProgress ::
  "int \<Rightarrow> int \<Rightarrow> real \<Rightarrow> int list \<Rightarrow> int list \<times> progress_line option" where
  "printProgress written total' elapsed window =
     (if elapsed = 0 then (window, None)
      else
        (let speed = real_of_int written / 1024 / elapsed;
             w1 = window @ [float_to_int64 speed];
             w2 = (if length w1 > 30 then drop 1 w1 else w1);
             totalSpeed = sum_list w2;
             avgSpeed =
               (if length w2 > 0 then real_of_int totalSpeed / real (length w2) else 0);
             remainingBytes =
               (if total' > 0 \<and> avgSpeed > 0
                then Some (if total' - written < 0 then 0 else total' - written)
                else None);
             remainingSeconds =
               map_option (\<lambda>b. real_of_int b / (avgSpeed * 1024)) remainingBytes;
             pct =
               (if total' > 0
                then Some (let p = real_of_int written / real_of_int total' * 100
                           in if p > 100 then 100 else p)
                else None)
         in (w2,
             Some \<lparr>line_pct = pct, line_written = written, line_total = total',
                   line_avgSpeed = avgSpeed, line_remainingBytes = remainingBytes,
                   line_remainingSeconds = remainingSeconds\<rparr>)))"

subsection \<open>Mutexes and the order in which a goroutine locks them\<close>

text \<open>
  The mutexes of \<open>concurrentDownload\<close>: \<open>segmentsMu\<close>, \<open>workersMu\<close> and the \<open>mu\<close> of each
  segment (by the address of the segment). The mutex of the \<open>Downloader\<close>, locked inside
  \<open>printProgress\<close> while no other is held, is left out. A trace lists the calls of
  \<open>Lock\<close> and \<open>Unlock\<close> that a piece of code makes, in program order.
\<close>

datatype mutex = SegmentsMu | WorkersMu | SegmentMu nat

datatype lock_event = Lock mutex | Unlock mutex

text \<open>\<open>Remaining\<close>: \<open>s.mu.Lock()\<close> and the deferred \<open>s.mu.Unlock()\<close>.\<close>

definition Remaining_locks :: "nat \<Rightarrow> lock_event list" where
  "Remaining_locks p = [Lock (SegmentMu p), Unlock (SegmentMu p)]"

text \<open>One round of the progress goroutine over the slice \<open>segs\<close>.\<close>

definition progress_locks :: "nat list \<Rightarrow> lock_event list" where
  "progress_locks segs =
     Lock SegmentsMu #
     concat (map (\<lambda>p. [Lock (SegmentMu p), Unlock (SegmentMu p)]) segs) @
     [Unlock SegmentsMu]"

text \<open>One round of a worker's read loop on the segment at \<open>p\<close>, and the merge.\<close>

definition add_downloaded_locks :: "nat \<Rightarrow> lock_event list" where
  "add_downloaded_locks p = [Lock (SegmentMu p), Unlock (SegmentMu p)]"

definition merge_locks :: "lock_event list" where
  "merge_locks = [Lock SegmentsMu, Unlock SegmentsMu]"

text \<open>\<open>newWorker\<close> locks \<open>workersMu\<close> only when the status is 206 or 200.\<close>

definition newWorker_locks :: "probe \<Rightarrow> lock_event list" where
  "newWorker_locks resp =
     (case resp of
        Response StatusCode \<Rightarrow>
          if StatusCode \<noteq> 206 \<and> StatusCode \<noteq> 200 then []
          else [Lock WorkersMu, Unlock WorkersMu]
      | _ \<Rightarrow> [])"

text \<open>
  One tick of the splitter goroutine, as its code is written: \<open>workersMu.Lock()\<close>, the
  call of \<open>newWorker\<close>, and, when a worker was created, \<open>segmentsMu.Lock()\<close>, the calls of
  \<open>Remaining\<close> made by the comparisons \<open>cmps\<close> of \<open>sort.Slice\<close> (each compares the
  segments at two addresses), the call of \<open>Remaining\<close> in the test against
  \<open>MinSegmentSize\<close>, whose outcome is \<open>small\<close>, and then either \<open>segmentsMu.Unlock()\<close> or
  \<open>largestSegment.mu.Lock()\<close>, the call of \<open>Remaining\<close> in the midpoint, the two
  \<open>Unlock\<close>s. No path of the tick unlocks what its first statement locked.
\<close>

definition splitter_tick_locks ::
  "probe \<Rightarrow> (nat \<times> nat) list \<Rightarrow> nat \<Rightarrow> bool \<Rightarrow> lock_event list" where
  "splitter_tick_locks resp cmps largestSegment small =
     Lock WorkersMu # newWorker_locks resp @
     (case resp of
        Response StatusCode \<Rightarrow>
          if StatusCode \<noteq> 206 \<and> StatusCode \<noteq> 200 then []
          else
            Lock SegmentsMu #
            concat (map (\<lambda>(i, j). Remaining_locks i @ Remaining_locks j) cmps) @
            Remaining_locks largestSegment @
            (if small then [Unlock SegmentsMu]
             else
               Lock (SegmentMu largestSegment) # Remaining_locks largestSegment @
               [Unlock (SegmentMu largestSegment), Unlock SegmentsMu])
      | _ \<Rightarrow> [])"

text \<open>
  What a goroutine that holds the mutexes \<open>held\<close> executes of a trace: it makes the
  calls in order, up to and including the first \<open>Lock\<close> of a mutex it holds itself,
  which never returns. (A mutex held by another goroutine is released again by that
  goroutine, unless that goroutine hangs.)
\<close>

fun ran :: "mutex list \<Rightarrow> lock_event list \<Rightarrow> lock_event list" where
  "ran held [] = []"
| "ran held (Lock m # t) =
     (if m \<in> set held then [Lock m] else Lock m # ran (m # held) t)"
| "ran held (Unlock m # t) = Unlock m # ran (remove1 m held) t"

text \<open>
  The order of the specification: \<open>segmentsMu\<close> before a segment's mutex and before
  \<open>workersMu\<close>, never the reverse, and \<open>workersMu\<close> never together with a segment's
  mutex. \<open>clash h m\<close> says that to call \<open>Lock\<close> on \<open>m\<close> while \<open>h\<close> is locked breaks it;
  a fixed order has no mutex before itself, so locking a mutex one has locked breaks
  it too. \<open>violations held t\<close> lists the calls of \<open>Lock\<close> in \<open>t\<close> that break the order,
  each with the mutexes locked and not yet unlocked at that call.
\<close>

fun clash :: "mutex \<Rightarrow> mutex \<Rightarrow> bool" where
  "clash h SegmentsMu = True"
| "clash SegmentsMu m = False"
| "clash WorkersMu WorkersMu = True"
| "clash WorkersMu (SegmentMu p) = True"
| "clash (SegmentMu p) WorkersMu = True"
| "clash (SegmentMu p) (SegmentMu q) = (p = q)"

fun violations :: "mutex list \<Rightarrow> lock_event list \<Rightarrow> (mutex list \<times> mutex) list" where
  "violations held [] = []"
| "violations held (Lock m # t) =
     (if list_ex (\<lambda>h. clash h m) held then [(held, m)] else []) @ violations (m # held) t"
| "violations held (Unlock m # t) = violations (remove1 m held) t"

subsection \<open>Waiting for the workers\<close>

text \<open>
  \<open>concurrentDownload\<close> calls \<open>wg.Wait()\<close> and only then \<open>close(segmentChan)\<close>; the merge
  follows. A worker runs \<open>for segment := range segmentChan\<close>, which ends only when the
  channel is closed and empty, and its deferred \<open>wg.Done()\<close> runs when \<open>start\<close> returns.
  \<open>queued\<close> is the number of segments in the channel, \<open>wg_counter\<close> the counter of the
  wait group. The steps: a worker receives a segment; the splitter sends one;
  \<open>wg.Add(1)\<close> for a new worker; a worker leaves its loop and is done; \<open>wg.Wait()\<close>
  returns, the channel is closed and the merge begins.
\<close>

record coordinator =
  queued :: nat
  closed :: bool
  wg_counter :: nat
  merging :: bool

definition coordinator_init :: coordinator where
  "coordinator_init = \<lparr>queued = 8, closed = False, wg_counter = 8, merging = False\<rparr>"

datatype coordinator_event =
  SegmentReceived | SegmentSent | WorkerAdded | WorkerDone | WaitReturned

fun coordinator_step :: "coordinator_event \<Rightarrow> coordinator \<Rightarrow> coordinator option" where
  "coordinator_step SegmentReceived c =
     (if 0 < queued c then Some (c\<lparr>queued := queued c - 1\<rparr>) else None)"
| "coordinator_step SegmentSent c =
     (if \<not> closed c then Some (c\<lparr>queued := queued c + 1\<rparr>) else None)"
| "coordinator_step WorkerAdded c = Some (c\<lparr>wg_counter := wg_counter c + 1\<rparr>)"
| "coordinator_step WorkerDone c =
     (if closed c \<and> queued c = 0 \<and> 0 < wg_counter c
      then Some (c\<lparr>wg_counter := wg_counter c - 1\<rparr>) else None)"
| "coordinator_step WaitReturned c =
     (if \<not> merging c \<and> wg_counter c = 0
      then Some (c\<lparr>closed := True, merging := True\<rparr>) else None)"

fun coordinator_run :: "coordinator_event list \<Rightarrow> coordinator \<Rightarrow> coordinator option" where
  "coordinator_run [] c = Some c"
| "coordinator_run (e # es) c =
     (case coordinator_step e c of None \<Rightarrow> None | Some c' \<Rightarrow> coordinator_run es c')"

subsection \<open>Example states\<close>

text \<open>
  The state after seeding a file of 32 MiB and of 80 bytes, and the pool of the eight
  initial workers.
\<close>

abbreviation seeded_32MiB :: download where
  "seeded_32MiB \<equiv> init_state (map (seed_segment 33554432) [0, 1, 2, 3, 4, 5, 6, 7])"

abbreviation seeded_80 :: download where
  "seeded_80 \<equiv> init_state (map (seed_segment 80) [0, 1, 2, 3, 4, 5, 6, 7])"

abbreviation initial_pool :: pool where
  "initial_pool \<equiv>
     \<lparr>workers = map (\<lambda>i. \<lparr>Worker_ID = i\<rparr>) [0, 1, 2, 3, 4, 5, 6, 7],
      workersMu = False, wg = 8\<rparr>"

section \<open>Seeding\<close>

lemma go_div_nonneg: "0 \<le> a \<Longrightarrow> 0 < b \<Longrightarrow> go_div a b = a div b"
  by (cases "a = 0") (simp_all add: go_div_def)

lemma upt_8: "[0..<8] = [0, 1, 2, 3, 4, 5, 6, 7::nat]"
  by (simp add: upt_rec)

lemma seed_all_created:
  "seed (\<lambda>i. True) totalSize = Inr (map (seed_segment totalSize) [0, 1, 2, 3, 4, 5, 6, 7])"
  by (simp add: seed_def InitialSegments_def upt_8)

lemma init_state_8:
  "init_state [a, b, c, d, e, f, g, h] =
     \<lparr>heap = [a, b, c, d, e, f, g, h], segments = [0, 1, 2, 3, 4, 5, 6, 7],
      segmentChan = [0, 1, 2, 3, 4, 5, 6, 7]\<rparr>"
  by (simp add: init_state_def upt_rec)

lemmas seed_simps = init_state_8 seed_segment_def go_div_def InitialSegments_def

text \<open>
  C3: with \<open>total_size = 10,000,003\<close> and eight initial segments the segment size is
  1,250,000; segments 0 to 6 are the ranges \<open>[i * 1,250,000, (i + 1) * 1,250,000 - 1]\<close>
  and segment 7 starts at 8,750,000 and ends at 10,000,003, the total size itself.
\<close>

theorem seed_10000003:
  "go_div 10000003 InitialSegments = 1250000 \<and>
   seed (\<lambda>i. True) 10000003 = Inr
     [\<lparr>ID = 0, Start = 0, End = 1249999, Downloaded = 0\<rparr>,
      \<lparr>ID = 1, Start = 1250000, End = 2499999, Downloaded = 0\<rparr>,
      \<lparr>ID = 2, Start = 2500000, End = 3749999, Downloaded = 0\<rparr>,
      \<lparr>ID = 3, Start = 3750000, End = 4999999, Downloaded = 0\<rparr>,
      \<lparr>ID = 4, Start = 5000000, End = 6249999, Downloaded = 0\<rparr>,
      \<lparr>ID = 5, Start = 6250000, End = 7499999, Downloaded = 0\<rparr>,
      \<lparr>ID = 6, Start = 7500000, End = 8749999, Downloaded = 0\<rparr>,
      \<lparr>ID = 7, Start = 8750000, End = 10000003, Downloaded = 0\<rparr>]"
  by (simp add: seed_all_created seed_segment_def go_div_def InitialSegments_def)

text \<open>
  Whatever the size of the file, the eight seeded ranges, in the order of the merge,
  tile the offsets from 0 to \<open>totalSize\<close> inclusive: one offset more than the file has.
\<close>

lemma sort_key_ID_seed:
  "sort_key ID (map (seed_segment t) [0, 1, 2, 3, 4, 5, 6, 7]) =
   map (seed_segment t) [0, 1, 2, 3, 4, 5, 6, 7]"
  by (simp add: seed_segment_def InitialSegments_def Let_def)

lemma seed_tiles_one_past:
  assumes "0 \<le> totalSize"
  shows "tiles 0 (merge_ranges (map (seed_segment totalSize) [0, 1, 2, 3, 4, 5, 6, 7]))
           (totalSize + 1)"
proof -
  have "0 \<le> totalSize div 8" and "7 * (totalSize div 8) \<le> totalSize + 1"
    using assms by simp_all
  then show ?thesis
    unfolding merge_ranges_def sort_key_ID_seed
    using assms by (simp add: seed_segment_def go_div_nonneg InitialSegments_def Let_def)
qed

text \<open>
  For a file of 16 bytes the seeded ranges, in the order of the merge, tile the offsets
  0 to 16, since segment 7 ends at 16, and so they do not tile 0 to 15.
\<close>

lemma seed_16_not_tiled:
  "seed (\<lambda>i. True) 16 = Inr
     [\<lparr>ID = 0, Start = 0, End = 1, Downloaded = 0\<rparr>,
      \<lparr>ID = 1, Start = 2, End = 3, Downloaded = 0\<rparr>,
      \<lparr>ID = 2, Start = 4, End = 5, Downloaded = 0\<rparr>,
      \<lparr>ID = 3, Start = 6, End = 7, Downloaded = 0\<rparr>,
      \<lparr>ID = 4, Start = 8, End = 9, Downloaded = 0\<rparr>,
      \<lparr>ID = 5, Start = 10, End = 11, Downloaded = 0\<rparr>,
      \<lparr>ID = 6, Start = 12, End = 13, Downloaded = 0\<rparr>,
      \<lparr>ID = 7, Start = 14, End = 16, Downloaded = 0\<rparr>] \<and>
   merge_ranges (map (seed_segment 16) [0, 1, 2, 3, 4, 5, 6, 7]) =
     [(0, 1), (2, 3), (4, 5), (6, 7), (8, 9), (10, 11), (12, 13), (14, 16)] \<and>
   tiles 0 (merge_ranges (map (seed_segment 16) [0, 1, 2, 3, 4, 5, 6, 7])) 17 \<and>
   \<not> tiles 0 (merge_ranges (map (seed_segment 16) [0, 1, 2, 3, 4, 5, 6, 7])) 16"
  by (simp add: seed_all_created seed_segment_def go_div_def InitialSegments_def
      merge_ranges_def)

section \<open>The merge is never reached\<close>

text \<open>
  C1 is about the segment list of a download that completes. While the coordinator
  waits, the channel stays open and the counter of the wait group stays at 8 or more,
  so \<open>wg.Wait()\<close> does not return: no segmented download gets to the merge, and none
  completes.
\<close>

lemma coordinator_step_waits:
  assumes "coordinator_step e c = Some c'"
    and "\<not> merging c \<and> \<not> closed c \<and> 8 \<le> wg_counter c"
  shows "\<not> merging c' \<and> \<not> closed c' \<and> 8 \<le> wg_counter c'"
  using assms by (cases e) (auto split: if_splits)

lemma coordinator_run_waits:
  "coordinator_run es c = Some c' \<Longrightarrow> \<not> merging c \<and> \<not> closed c \<and> 8 \<le> wg_counter c \<Longrightarrow>
   \<not> merging c' \<and> \<not> closed c' \<and> 8 \<le> wg_counter c'"
proof (induction es arbitrary: c)
  case Nil
  then show ?case by simp
next
  case (Cons e es)
  from Cons.prems(1) obtain c1 where c1: "coordinator_step e c = Some c1"
    and r: "coordinator_run es c1 = Some c'"
    by (auto split: option.splits)
  from Cons.IH [OF r coordinator_step_waits [OF c1 Cons.prems(2)]] show ?case .
qed

lemma never_merges:
  "coordinator_run es coordinator_init = Some c \<Longrightarrow> \<not> merging c \<and> \<not> closed c"
  using coordinator_run_waits [of es coordinator_init c]
  by (simp add: coordinator_init_def)

section \<open>The split\<close>

lemma split_largest_small:
  "Remaining (heap s ! p) < MinSegmentSize \<Longrightarrow>
   split_largest (p # rest) created s = Skipped (s\<lparr>segments := p # rest\<rparr>)"
  by (simp add: split_largest_def)

lemma split_largest_big:
  "MinSegmentSize \<le> Remaining (heap s ! p) \<Longrightarrow>
   split_largest (p # rest) created s = Hung (s\<lparr>segments := p # rest\<rparr>)"
  by (simp add: split_largest_def)

lemma step_SplitTick:
  assumes "step (SplitTick sl created) s = Some s'"
  shows "s' = s\<lparr>segments := sl\<rparr>"
proof (cases sl)
  case Nil
  with assms show ?thesis by (simp add: split_largest_def split: if_splits)
next
  case (Cons p rest)
  with assms show ?thesis
    by (cases "Remaining (heap s ! p) < MinSegmentSize")
      (auto simp: split_largest_small split_largest_big split: if_splits)
qed

lemma sort_Slice_result_length:
  "sort_Slice_result h before after \<Longrightarrow> length after = length before"
  by (auto simp: sort_Slice_result_def dest: mset_eq_length)

lemma sort_Slice_result_head:
  assumes "sort_Slice_result h before (p # rest)" and "q \<in> set before"
  shows "Remaining (h ! q) \<le> Remaining (h ! p)"
proof -
  from assms(1) have m: "mset (p # rest) = mset before"
    and s: "sorted_wrt (\<lambda>a b. \<not> Remaining (h ! b) > Remaining (h ! a)) (p # rest)"
    by (simp_all add: sort_Slice_result_def)
  from m assms(2) have "q \<in> set (p # rest)"
    by (metis set_mset_mset)
  with s show ?thesis by auto
qed


text \<open>
  C6: on a tick where the segment that \<open>sort.Slice\<close> put first, one with the greatest
  remaining, has less than \<open>MinSegmentSize\<close> remaining, nothing is split: the heap (so
  every segment's end) and the channel are as before, and the slice has the length it
  had; only its order is the sorted one.
\<close>

theorem small_remaining_no_split:
  assumes "sort_Slice_result (heap s) (segments s) (p # rest)"
    and "Remaining (heap s ! p) < MinSegmentSize"
  shows "(\<forall>q\<in>set (segments s). Remaining (heap s ! q) \<le> Remaining (heap s ! p)) \<and>
         step (SplitTick (p # rest) created) s = Some (s\<lparr>segments := p # rest\<rparr>) \<and>
         heap (s\<lparr>segments := p # rest\<rparr>) = heap s \<and>
         segmentChan (s\<lparr>segments := p # rest\<rparr>) = segmentChan s \<and>
         length (p # rest) = length (segments s)"
  using assms sort_Slice_result_head [OF assms(1)] sort_Slice_result_length [OF assms(1)]
  by (simp add: split_largest_small)

text \<open>For the seeded file of 80 bytes every tick is such a tick.\<close>

theorem small_remaining_no_split_witness:
  "sort_Slice_result (heap seeded_80) (segments seeded_80) [7, 0, 1, 2, 3, 4, 5, 6] \<and>
   Remaining (heap seeded_80 ! 7) < MinSegmentSize \<and>
   step (SplitTick [7, 0, 1, 2, 3, 4, 5, 6] True) seeded_80 =
     Some (seeded_80\<lparr>segments := [7, 0, 1, 2, 3, 4, 5, 6]\<rparr>) \<and>
   length [7, 0, 1, 2, 3, 4, 5, 6 :: nat] = length (segments seeded_80)"
proof -
  have h1: "sort_Slice_result (heap seeded_80) (segments seeded_80) [7, 0, 1, 2, 3, 4, 5, 6]"
    by (simp add: seed_simps sort_Slice_result_def Remaining_def)
  have h2: "Remaining (heap seeded_80 ! 7) < MinSegmentSize"
    by (simp add: seed_simps Remaining_def MinSegmentSize_def)
  from small_remaining_no_split [OF h1 h2, of True] h1 h2 show ?thesis
    by simp
qed

section \<open>Runs: what a segment keeps\<close>

text \<open>The read loop of a worker only adds to \<open>Downloaded\<close>.\<close>

lemma read_loop_keeps:
  "read_loop reads seg = (r, seg') \<Longrightarrow>
   ID seg' = ID seg \<and> Start seg' = Start seg \<and> End seg' = End seg \<and>
   Downloaded seg \<le> Downloaded seg'"
proof (induction reads arbitrary: seg)
  case Nil
  then show ?case by simp
next
  case (Cons x reads)
  obtain n write_ok err where x: "x = (n, write_ok, err)"
    by (cases x)
  show ?case
  proof (cases "n > 0 \<and> \<not> write_ok")
    case True
    with Cons.prems x show ?thesis by simp
  next
    case False
    let ?seg = "if n > 0 then add_downloaded n seg else seg"
    have mid: "ID ?seg = ID seg \<and> Start ?seg = Start seg \<and> End ?seg = End seg \<and>
               Downloaded seg \<le> Downloaded ?seg"
      by (simp add: add_downloaded_def)
    show ?thesis
    proof (cases err)
      case NoError
      with Cons.prems x False have "read_loop reads ?seg = (r, seg')"
        by (simp add: Let_def)
      from Cons.IH [OF this] mid show ?thesis by simp
    next
      case EOF
      with Cons.prems x False have "seg' = ?seg" by (simp add: Let_def)
      with mid show ?thesis by simp
    next
      case ReadError
      with Cons.prems x False have "seg' = ?seg" by (simp add: Let_def)
      with mid show ?thesis by simp
    qed
  qed
qed

lemma step_keeps:
  assumes "step e s = Some s'" and "a < length (heap s)"
  shows "a < length (heap s') \<and> ID (heap s' ! a) = ID (heap s ! a) \<and>
         Start (heap s' ! a) = Start (heap s ! a) \<and> End (heap s' ! a) \<le> End (heap s ! a)"
proof (cases e)
  case Receive
  with assms show ?thesis by (auto split: list.splits)
next
  case (BodyRead p n)
  with assms show ?thesis
    by (cases "a = p") (auto simp: add_downloaded_def split: if_splits)
next
  case (SplitTick sl created)
  with assms(1) have "s' = s\<lparr>segments := sl\<rparr>" by (simp only: step_SplitTick)
  with assms(2) show ?thesis by simp
qed

lemma step_no_split_End:
  assumes "step e s = Some s'" and "a < length (heap s)" and "\<forall>sl c. e \<noteq> SplitTick sl c"
  shows "End (heap s' ! a) = End (heap s ! a)"
proof (cases e)
  case Receive
  with assms show ?thesis by (auto split: list.splits)
next
  case (BodyRead p n)
  with assms show ?thesis
    by (cases "a = p") (auto simp: add_downloaded_def split: if_splits)
next
  case (SplitTick sl created)
  with assms(3) show ?thesis by blast
qed

lemma run_keeps:
  "run es s = Some s' \<Longrightarrow> a < length (heap s) \<Longrightarrow>
   a < length (heap s') \<and> ID (heap s' ! a) = ID (heap s ! a) \<and>
   Start (heap s' ! a) = Start (heap s ! a) \<and> End (heap s' ! a) \<le> End (heap s ! a)"
proof (induction es arbitrary: s)
  case Nil
  then show ?case by simp
next
  case (Cons e es)
  from Cons.prems(1) obtain s1 where s1: "step e s = Some s1" and r: "run es s1 = Some s'"
    by (auto split: option.splits)
  from step_keeps [OF s1 Cons.prems(2)] Cons.IH [OF r] show ?case by auto
qed

lemma run_no_split_End:
  "run es s = Some s' \<Longrightarrow> a < length (heap s) \<Longrightarrow> \<forall>e\<in>set es. \<forall>sl c. e \<noteq> SplitTick sl c \<Longrightarrow>
   End (heap s' ! a) = End (heap s ! a)"
proof (induction es arbitrary: s)
  case Nil
  then show ?case by simp
next
  case (Cons e es)
  from Cons.prems(1) obtain s1 where s1: "step e s = Some s1" and r: "run es s1 = Some s'"
    by (auto split: option.splits)
  from Cons.prems(3) have ne: "\<forall>sl c. e \<noteq> SplitTick sl c" and rest: "\<forall>e\<in>set es. \<forall>sl c. e \<noteq> SplitTick sl c"
    by simp_all
  from step_keeps [OF s1 Cons.prems(2)] have a1: "a < length (heap s1)" by simp
  from step_no_split_End [OF s1 Cons.prems(2) ne] Cons.IH [OF r a1 rest] show ?case by simp
qed

text \<open>
  C5: along any run, the segment at an address keeps its id and its start, and its end
  never grows; if the run has no split, the end stays what it was.
\<close>

theorem end_only_shrinks:
  assumes "run es s = Some s'" and "a < length (heap s)"
  shows "a < length (heap s') \<and> ID (heap s' ! a) = ID (heap s ! a) \<and>
         Start (heap s' ! a) = Start (heap s ! a) \<and> End (heap s' ! a) \<le> End (heap s ! a) \<and>
         ((\<forall>e\<in>set es. \<forall>sl c. e \<noteq> SplitTick sl c) \<longrightarrow> End (heap s' ! a) = End (heap s ! a))"
  using run_keeps [OF assms] run_no_split_End [OF assms] by blast

text \<open>
  Segment 7 of the seeded file of 32 MiB, after a worker received it and read 1000
  bytes of it: the same id, start and end.
\<close>

theorem end_only_shrinks_witness:
  "run [Receive, BodyRead 7 1000] seeded_32MiB =
     Some (seeded_32MiB
             \<lparr>heap := (heap seeded_32MiB)
                [7 := \<lparr>ID = 7, Start = 29360128, End = 33554432, Downloaded = 1000\<rparr>],
              segmentChan := [1, 2, 3, 4, 5, 6, 7]\<rparr>) \<and>
   7 < length (heap seeded_32MiB) \<and>
   ID (heap seeded_32MiB ! 7) = 7 \<and>
   Start (heap seeded_32MiB ! 7) = 29360128 \<and>
   End (heap seeded_32MiB ! 7) = 33554432"
proof -
  have h1: "run [Receive, BodyRead 7 1000] seeded_32MiB =
     Some (seeded_32MiB
             \<lparr>heap := (heap seeded_32MiB)
                [7 := \<lparr>ID = 7, Start = 29360128, End = 33554432, Downloaded = 1000\<rparr>],
              segmentChan := [1, 2, 3, 4, 5, 6, 7]\<rparr>)"
    by (simp add: seed_simps add_downloaded_def)
  have h2: "7 < length (heap seeded_32MiB)"
    by (simp add: seed_simps)
  from end_only_shrinks [OF h1 h2] h1 h2 show ?thesis
    by (simp add: seed_simps)
qed

section \<open>The bounds of \<open>Downloaded\<close>\<close>

text \<open>
  C2 says that \<open>0 \<le> downloaded \<le> end - start + 1\<close> holds for every segment at every
  moment. It does not: the worker adds whatever the body delivers. For a file of 80
  bytes, segment 0 is the range 0 to 9; a server that answers its range request with
  status 200 and the whole file delivers 80 bytes, and one read of 80 bytes leaves
  \<open>Downloaded = 80\<close> against the ten bytes of the range.
\<close>

theorem whole_body_overshoots:
  "seed (\<lambda>i. True) 80 = Inr (map (seed_segment 80) [0, 1, 2, 3, 4, 5, 6, 7]) \<and>
   read_loop [(80, True, EOF)] (seed_segment 80 0) =
     (Some Closed, \<lparr>ID = 0, Start = 0, End = 9, Downloaded = 80\<rparr>) \<and>
   run [Receive, BodyRead 0 80] seeded_80 =
     Some (seeded_80\<lparr>heap := (heap seeded_80)[0 := \<lparr>ID = 0, Start = 0, End = 9, Downloaded = 80\<rparr>],
                     segmentChan := [1, 2, 3, 4, 5, 6, 7]\<rparr>) \<and>
   \<not> Downloaded \<lparr>ID = 0, Start = 0, End = 9, Downloaded = 80\<rparr>
       \<le> End \<lparr>ID = 0, Start = 0, End = 9, Downloaded = 80\<rparr>
         - Start \<lparr>ID = 0, Start = 0, End = 9, Downloaded = 80\<rparr> + 1"
  by (simp add: seed_all_created init_state_8 add_downloaded_def seed_segment_def go_div_def
      InitialSegments_def)

lemma seed_loop_map:
  "seed_loop create t is = Inr segs \<Longrightarrow> segs = map (\<lambda>i. seed_segment t (int i)) is"
  by (induction "is" arbitrary: segs) (auto split: if_splits sum.splits)

lemma seed_segment_inv:
  assumes "0 \<le> t" and "0 \<le> i" and "i < 8"
  shows "segment_inv (seed_segment t i)"
proof -
  have "0 \<le> t div 8" using assms(1) by simp
  moreover have "8 * (t div 8) \<le> t" by presburger
  ultimately have "i * (t div 8) \<le> t + 1" 
    using assms(2,3) mult_right_mono [of i 8 "t div 8"] by simp
  then show ?thesis
    using assms \<open>0 \<le> t div 8\<close>
    by (simp add: segment_inv_def seed_segment_def Let_def go_div_nonneg InitialSegments_def)
qed

lemma seed_inv:
  assumes "0 \<le> t" and "seed create t = Inr segs" and "seg \<in> set segs"
  shows "segment_inv seg"
proof -
  from assms(2) have "segs = map (\<lambda>i. seed_segment t (int i)) [0..<8]"
    by (simp add: seed_def InitialSegments_def seed_loop_map)
  with assms(3) obtain i where "i < 8" and "seg = seed_segment t (int i)"
    by auto
  with assms(1) show ?thesis by (simp add: seed_segment_inv)
qed

lemma in_set_update: "x \<in> set (xs[p := y]) \<Longrightarrow> x = y \<or> x \<in> set xs"
  using set_update_subset_insert [of xs p y] by auto

lemma step_Downloaded_nonneg:
  assumes "step e s = Some s'" and "\<forall>seg\<in>set (heap s). 0 \<le> Downloaded seg"
  shows "\<forall>seg\<in>set (heap s'). 0 \<le> Downloaded seg"
proof (cases e)
  case Receive
  with assms show ?thesis by (auto split: list.splits)
next
  case (BodyRead p n)
  with assms show ?thesis
    by (auto simp: add_downloaded_def split: if_splits dest!: in_set_update)
next
  case (SplitTick sl created)
  with assms(1) have "s' = s\<lparr>segments := sl\<rparr>" by (simp only: step_SplitTick)
  with assms(2) show ?thesis by simp
qed

lemma step_segment_inv:
  assumes "step e s = Some s'" and "\<forall>seg\<in>set (heap s). segment_inv seg"
    and "case e of BodyRead p n \<Rightarrow> n \<le> Remaining (heap s ! p) | _ \<Rightarrow> True"
  shows "\<forall>seg\<in>set (heap s'). segment_inv seg"
proof (cases e)
  case Receive
  with assms show ?thesis by (auto split: list.splits)
next
  case (BodyRead p n)
  with assms(1) have p: "p < length (heap s)" and n: "0 < n"
    and s': "s' = s\<lparr>heap := (heap s)[p := add_downloaded n (heap s ! p)]\<rparr>"
    by (auto split: if_splits)
  from p assms(2) have "segment_inv (heap s ! p)" by simp
  with n assms(3) BodyRead have "segment_inv (add_downloaded n (heap s ! p))"
    by (simp add: segment_inv_def add_downloaded_def Remaining_def)
  with assms(2) show ?thesis
    by (auto simp: s' dest!: in_set_update)
next
  case (SplitTick sl created)
  with assms(1) have "s' = s\<lparr>segments := sl\<rparr>" by (simp only: step_SplitTick)
  with assms(2) show ?thesis by simp
qed

text \<open>
  After a read of \<open>n\<close> bytes the segment is within its range if and only if \<open>n\<close> was at
  most what it had remaining; the other segments are as they were.
\<close>

lemma step_BodyRead_bound:
  assumes "step (BodyRead p n) s = Some s'"
  shows "(Downloaded (heap s' ! p) \<le> End (heap s' ! p) - Start (heap s' ! p) + 1) =
         (n \<le> Remaining (heap s ! p))"
proof -
  from assms have p: "p < length (heap s)"
    and s': "s' = s\<lparr>heap := (heap s)[p := add_downloaded n (heap s ! p)]\<rparr>"
    by (auto split: if_splits)
  from p show ?thesis
    by (auto simp: s' add_downloaded_def Remaining_def)
qed

lemma run_Downloaded_nonneg:
  "run es s = Some s' \<Longrightarrow> \<forall>seg\<in>set (heap s). 0 \<le> Downloaded seg \<Longrightarrow>
   \<forall>seg\<in>set (heap s'). 0 \<le> Downloaded seg"
proof (induction es arbitrary: s)
  case Nil
  then show ?case by simp
next
  case (Cons e es)
  from Cons.prems(1) obtain s1 where s1: "step e s = Some s1" and r: "run es s1 = Some s'"
    by (auto split: option.splits)
  from Cons.IH [OF r step_Downloaded_nonneg [OF s1 Cons.prems(2)]] show ?case .
qed

lemma run_segment_inv:
  "run es s = Some s' \<Longrightarrow> reads_within es s \<Longrightarrow> \<forall>seg\<in>set (heap s). segment_inv seg \<Longrightarrow>
   \<forall>seg\<in>set (heap s'). segment_inv seg"
proof (induction es arbitrary: s)
  case Nil
  then show ?case by simp
next
  case (Cons e es)
  from Cons.prems(1) obtain s1 where s1: "step e s = Some s1" and r: "run es s1 = Some s'"
    by (auto split: option.splits)
  from Cons.prems(2) s1 have w: "case e of BodyRead p n \<Rightarrow> n \<le> Remaining (heap s ! p) | _ \<Rightarrow> True"
    and rw: "reads_within es s1"
    by simp_all
  from Cons.IH [OF r rw step_segment_inv [OF s1 Cons.prems(3) w]] show ?case .
qed

text \<open>
  C2, amended: after seeding a file of size \<open>totalSize \<ge> 0\<close>, every segment of every
  state a run reaches has \<open>0 \<le> Downloaded\<close>, and, if each read of the run added no more
  bytes than its segment had remaining, \<open>Downloaded \<le> End - Start + 1\<close> as well. A
  further read of \<open>n\<close> bytes leaves its segment with \<open>Downloaded \<le> End - Start + 1\<close> if
  and only if \<open>n\<close> is at most what the segment had remaining.
\<close>

theorem downloaded_bounds:
  assumes "0 \<le> totalSize" and "seed create totalSize = Inr segs"
    and "run es (init_state segs) = Some s"
  shows "(seg \<in> set (heap s) \<longrightarrow>
            0 \<le> Downloaded seg \<and>
            (reads_within es (init_state segs) \<longrightarrow>
               Downloaded seg \<le> End seg - Start seg + 1)) \<and>
         (step (BodyRead p n) s = Some s' \<longrightarrow>
            (Downloaded (heap s' ! p) \<le> End (heap s' ! p) - Start (heap s' ! p) + 1) =
            (n \<le> Remaining (heap s ! p)))"
proof -
  have inv0: "\<forall>x\<in>set (heap (init_state segs)). segment_inv x"
    using seed_inv [OF assms(1,2)] by (simp add: init_state_def)
  then have "\<forall>x\<in>set (heap (init_state segs)). 0 \<le> Downloaded x"
    by (simp add: segment_inv_def)
  from run_Downloaded_nonneg [OF assms(3) this]
  have low: "seg \<in> set (heap s) \<Longrightarrow> 0 \<le> Downloaded seg" by simp
  have up: "Downloaded seg \<le> End seg - Start seg + 1"
    if "reads_within es (init_state segs)" and "seg \<in> set (heap s)"
    using run_segment_inv [OF assms(3) that(1) inv0] that(2) by (simp add: segment_inv_def)
  from low up step_BodyRead_bound [of p n s s'] show ?thesis by blast
qed

text \<open>
  The seeded file of 80 bytes: a worker receives segment 0, the range 0 to 9, and reads
  4 bytes of it; a further read of the 6 bytes that remain fills the range exactly.
\<close>

theorem downloaded_bounds_witness:
  "(0 :: int) \<le> 80 \<and>
   seed (\<lambda>i. True) 80 = Inr (map (seed_segment 80) [0, 1, 2, 3, 4, 5, 6, 7]) \<and>
   run [Receive, BodyRead 0 4] seeded_80 =
     Some (seeded_80
             \<lparr>heap := (heap seeded_80)[0 := \<lparr>ID = 0, Start = 0, End = 9, Downloaded = 4\<rparr>],
              segmentChan := [1, 2, 3, 4, 5, 6, 7]\<rparr>) \<and>
   reads_within [Receive, BodyRead 0 4] seeded_80 \<and>
   0 \<le> Downloaded \<lparr>ID = 0, Start = 0, End = 9, Downloaded = 4\<rparr> \<and>
   Downloaded \<lparr>ID = 0, Start = 0, End = 9, Downloaded = 4\<rparr>
     \<le> End \<lparr>ID = 0, Start = 0, End = 9, Downloaded = 4\<rparr>
       - Start \<lparr>ID = 0, Start = 0, End = 9, Downloaded = 4\<rparr> + 1 \<and>
   step (BodyRead 0 6)
     (seeded_80
        \<lparr>heap := (heap seeded_80)[0 := \<lparr>ID = 0, Start = 0, End = 9, Downloaded = 4\<rparr>],
         segmentChan := [1, 2, 3, 4, 5, 6, 7]\<rparr>) =
     Some (seeded_80
             \<lparr>heap := (heap seeded_80)[0 := \<lparr>ID = 0, Start = 0, End = 9, Downloaded = 10\<rparr>],
              segmentChan := [1, 2, 3, 4, 5, 6, 7]\<rparr>) \<and>
   (6 :: int) \<le> Remaining \<lparr>ID = 0, Start = 0, End = 9, Downloaded = 4\<rparr>"
proof -
  let ?es = "[Receive, BodyRead 0 4]"
  let ?seg = "\<lparr>ID = 0, Start = 0, End = 9, Downloaded = 4\<rparr>"
  let ?s = "seeded_80\<lparr>heap := (heap seeded_80)[0 := ?seg],
                       segmentChan := [1, 2, 3, 4, 5, 6, 7]\<rparr>"
  let ?s' = "seeded_80
               \<lparr>heap := (heap seeded_80)[0 := \<lparr>ID = 0, Start = 0, End = 9, Downloaded = 10\<rparr>],
                segmentChan := [1, 2, 3, 4, 5, 6, 7]\<rparr>"
  have h1: "(0 :: int) \<le> 80" by simp
  have h2: "seed (\<lambda>i. True) 80 = Inr (map (seed_segment 80) [0, 1, 2, 3, 4, 5, 6, 7])"
    by (rule seed_all_created)
  have h3: "run ?es seeded_80 = Some ?s"
    by (simp add: seed_simps add_downloaded_def)
  have h4: "?seg \<in> set (heap ?s)"
    by (simp add: seed_simps)
  have h5: "reads_within ?es seeded_80"
    by (simp add: seed_simps add_downloaded_def Remaining_def)
  have h6: "step (BodyRead 0 6) ?s = Some ?s'"
    by (simp add: seed_simps add_downloaded_def)
  from downloaded_bounds [OF h1 h2 h3, of ?seg 0 6 ?s'] h1 h2 h3 h4 h5 h6 show ?thesis
    by (simp add: seed_simps Remaining_def)
qed

section \<open>Admission of a worker\<close>

text \<open>
  Called with \<open>workersMu\<close> free, \<open>newWorker\<close> registers one worker, whose id is the
  length of the list, when the status is 206 or 200, and returns \<open>false\<close> with no error
  and the pool untouched on any other status. Called with \<open>workersMu\<close> held it returns
  only on the statuses it rejects.
\<close>

lemma newWorker_free:
  assumes "\<not> workersMu p" and "status = 206 \<or> status = 200"
  shows "newWorker (Response status) p =
           Returned True None
             (p\<lparr>workers := workers p @ [\<lparr>Worker_ID = int (length (workers p))\<rparr>],
                wg := wg p + 1\<rparr>)"
  using assms by (auto simp: newWorker_def Let_def)

lemma newWorker_other_status:
  "status \<noteq> 206 \<Longrightarrow> status \<noteq> 200 \<Longrightarrow> newWorker (Response status) p = Returned False None p"
  by (simp add: newWorker_def)

lemma newWorker_held:
  "workersMu p \<Longrightarrow> status = 206 \<or> status = 200 \<Longrightarrow> newWorker (Response status) p = Blocked p"
  by (auto simp: newWorker_def)

lemma splitter_admit_never_admits: "splitter_admit totalDownloaded totalSize resp p \<noteq> Admitted p'"
  by (cases resp) (auto simp: splitter_admit_def newWorker_def split: if_splits)

lemma splitter_admit_Skip_holds_mutex:
  "splitter_admit totalDownloaded totalSize resp p = Skip p' \<Longrightarrow> workersMu p'"
  by (cases resp) (auto simp: splitter_admit_def newWorker_def split: if_splits)

lemma splitter_admit_after_Skip:
  assumes "splitter_admit totalDownloaded totalSize resp p = Skip p'"
    and "totalDownloaded' < totalSize"
  shows "splitter_admit totalDownloaded' totalSize resp' p' = Stuck p'"
  using splitter_admit_Skip_holds_mutex [OF assms(1)] assms(2)
  by (simp add: splitter_admit_def)

lemma splitter_admit_workers:
  "splitter_admit totalDownloaded totalSize resp p = Skip p' \<or>
   splitter_admit totalDownloaded totalSize resp p = Stuck p' \<Longrightarrow> workers p' = workers p"
  by (cases resp) (auto simp: splitter_admit_def newWorker_def split: if_splits)

text \<open>
  C7: a probe whose response has status 206 or 200 should register one worker and
  return \<open>true\<close>. The splitter, the only caller, locks \<open>workersMu\<close> before the call:
  with the eight initial workers and a response of status 206, \<open>newWorker\<close> waits for
  the mutex its caller holds, the tick never ends, and no worker is registered.
\<close>

theorem probe_206_never_returns:
  "newWorker (Response 206) (initial_pool\<lparr>workersMu := True\<rparr>) =
     Blocked (initial_pool\<lparr>workersMu := True\<rparr>) \<and>
   splitter_admit 0 33554432 (Response 206) initial_pool =
     Stuck (initial_pool\<lparr>workersMu := True\<rparr>)"
  by (simp add: splitter_admit_def newWorker_def)

section \<open>The order of locking\<close>

text \<open>
  The progress goroutine, a worker and the merge keep the order, whatever the slice
  holds, and nothing in their traces waits for a mutex of their own.
\<close>

lemma violations_segments:
  "violations [SegmentsMu]
     (concat (map (\<lambda>p. [Lock (SegmentMu p), Unlock (SegmentMu p)]) segs) @ t) =
   violations [SegmentsMu] t"
  by (induction segs) simp_all

lemma progress_keeps_order: "violations [] (progress_locks segs) = []"
  by (simp add: progress_locks_def violations_segments)

lemma ran_segments:
  "ran [SegmentsMu]
     (concat (map (\<lambda>p. [Lock (SegmentMu p), Unlock (SegmentMu p)]) segs) @ t) =
   concat (map (\<lambda>p. [Lock (SegmentMu p), Unlock (SegmentMu p)]) segs) @ ran [SegmentsMu] t"
  by (induction segs) simp_all

lemma progress_runs_through: "ran [] (progress_locks segs) = progress_locks segs"
  by (simp add: progress_locks_def ran_segments)

lemma worker_keeps_order:
  "violations [] (add_downloaded_locks p) = [] \<and>
   ran [] (add_downloaded_locks p) = add_downloaded_locks p"
  by (simp add: add_downloaded_locks_def)

lemma merge_keeps_order:
  "violations [] merge_locks = [] \<and> ran [] merge_locks = merge_locks"
  by (simp add: merge_locks_def)

text \<open>
  After a probe that fails, the tick has locked \<open>workersMu\<close> and nothing else, and the
  next tick waits for it.
\<close>

lemma splitter_second_tick:
  "ran [] (splitter_tick_locks DoError cmps p small @ splitter_tick_locks resp cmps' p' small') =
     [Lock WorkersMu, Lock WorkersMu]"
  by (simp add: splitter_tick_locks_def newWorker_locks_def)


section \<open>Progress lines\<close>

text \<open>
  C8: every line written for a total greater than 0 shows a percentage of at most 100,
  and the remaining bytes behind its ETA, when it has one, are not negative; also when
  more was written than the total.
\<close>

theorem progress_clamps:
  assumes "0 < total'"
    and "printProgress written total' elapsed window = (window', Some line)"
  shows "(\<exists>pct. line_pct line = Some pct \<and> pct \<le> 100) \<and>
         (line_remainingBytes line = Some b \<longrightarrow> 0 \<le> b)"
  using assms
  by (auto simp: printProgress_def Let_def split: if_splits)

text \<open>
  Twice the total written: the line shows 100 percent and an ETA computed from 0
  remaining bytes.
\<close>

theorem progress_clamps_witness:
  "(0 :: int) < 102400 \<and>
   printProgress 204800 102400 1 [] =
     ([200], Some \<lparr>line_pct = Some 100, line_written = 204800, line_total = 102400,
                   line_avgSpeed = 200, line_remainingBytes = Some 0,
                   line_remainingSeconds = Some 0\<rparr>) \<and>
   (100 :: real) \<le> 100 \<and> (0 :: int) \<le> 0"
proof -
  have h1: "(0 :: int) < 102400" by simp
  have h2: "printProgress 204800 102400 1 [] =
     ([200], Some \<lparr>line_pct = Some 100, line_written = 204800, line_total = 102400,
                   line_avgSpeed = 200, line_remainingBytes = Some 0,
                   line_remainingSeconds = Some 0\<rparr>)"
    by (simp add: printProgress_def float_to_int64_def Let_def)
  from progress_clamps [OF h1 h2, of 0] h1 h2 show ?thesis
    by simp
qed

text \<open>
  C10: when the elapsed time is exactly 0, \<open>printProgress\<close> returns at once: the window
  is the one it was given and no line is written, so no speed is computed. In every
  other call a line is written and the window, which held at most 30 samples before,
  holds at most 30 after.
\<close>

theorem progress_window:
  assumes "length window \<le> 30"
  shows "printProgress written total' 0 window = (window, None) \<and>
         (elapsed \<noteq> 0 \<longrightarrow>
            length (fst (printProgress written total' elapsed window)) \<le> 30 \<and>
            snd (printProgress written total' elapsed window) \<noteq> None)"
  using assms by (auto simp: printProgress_def Let_def)

text \<open>A full window of 30 samples: the oldest one is dropped.\<close>

theorem progress_window_witness:
  "length (replicate 30 (7 :: int)) \<le> 30 \<and>
   printProgress 2048 0 0 (replicate 30 7) = (replicate 30 7, None) \<and>
   (2 :: real) \<noteq> 0 \<and>
   fst (printProgress 2048 0 2 (replicate 30 7)) = replicate 29 7 @ [1] \<and>
   length (fst (printProgress 2048 0 2 (replicate 30 7))) \<le> 30"
proof -
  have h1: "length (replicate 30 (7 :: int)) \<le> 30" by simp
  have h2: "fst (printProgress 2048 0 2 (replicate 30 7)) = replicate 29 7 @ [1]"
    by (simp add: printProgress_def float_to_int64_def Let_def numeral_eq_Suc)
  from progress_window [OF h1, of 2048 0 2] h1 h2 show ?thesis
    by simp
qed

end
